theory Spec2Isabelle
  imports Main
begin

section \<open>URL parser\<close>

text \<open>
  \<^verbatim>\<open>get_video_id_from_url\<close> tries three regular expressions with \<^verbatim>\<open>re.search\<close>, in
  list order. Each of them is a literal text followed by the capture group
  \<^verbatim>\<open>([a-zA-Z0-9_-]+)\<close>. A string is a list of bytes (UTF-8): the literals and the class
  are ASCII, and no byte of a multi-byte sequence is ASCII, so a search over bytes finds
  what the search over code points finds.
\<close>

definition id_char :: "char \<Rightarrow> bool" where
  \<comment> \<open>the character class \<^verbatim>\<open>[a-zA-Z0-9_-]\<close>\<close>
  "id_char c \<longleftrightarrow>
     (let n = (of_char c :: nat) in
        (97 \<le> n \<and> n \<le> 122) \<or> (65 \<le> n \<and> n \<le> 90) \<or> (48 \<le> n \<and> n \<le> 57)
        \<or> c = CHR ''_'' \<or> c = CHR ''-'')"

definition match_here :: "string \<Rightarrow> string \<Rightarrow> string option" where
  \<comment> \<open>the pattern anchored at the start of \<open>s\<close>: the literal, then the greedy group, which
      must take at least one character; the result is \<^verbatim>\<open>match.group(1)\<close>\<close>
  "match_here lit s =
     (if take (length lit) s = lit
      then (let g = takeWhile id_char (drop (length lit) s)
            in if g = [] then None else Some g)
      else None)"

fun re_search :: "string \<Rightarrow> string \<Rightarrow> string option" where
  \<comment> \<open>\<^verbatim>\<open>re.search\<close>: the match at the leftmost start position that has one\<close>
  "re_search lit [] = match_here lit []"
| "re_search lit (c # cs) =
     (case match_here lit (c # cs) of
        Some g \<Rightarrow> Some g
      | None \<Rightarrow> re_search lit cs)"

definition patterns :: "string list" where
  \<comment> \<open>the literal parts of the three patterns, in the order of the source's list\<close>
  "patterns = [''watch?v='', ''youtu.be/'', ''embed/'']"

fun first_match :: "string list \<Rightarrow> string \<Rightarrow> string option" where
  \<comment> \<open>the \<^verbatim>\<open>for pattern in patterns\<close> loop: return at the first pattern that matches\<close>
  "first_match [] url = None"
| "first_match (p # ps) url =
     (case re_search p url of
        Some g \<Rightarrow> Some g
      | None \<Rightarrow> first_match ps url)"

definition get_video_id_from_url :: "string \<Rightarrow> string option" where
  "get_video_id_from_url url = first_match patterns url"

text \<open>
  What it means for a pattern to match, stated without the search: the literal stands
  at position \<open>i\<close> of the text and is followed by the run \<open>g\<close> of class characters, which
  is not empty and cannot be extended to the right.
\<close>

definition matches_at :: "string \<Rightarrow> string \<Rightarrow> nat \<Rightarrow> string \<Rightarrow> bool" where
  "matches_at lit url i g \<longleftrightarrow>
     (\<exists>pre suf. url = pre @ lit @ g @ suf \<and> length pre = i \<and> g \<noteq> [] \<and>
        (\<forall>c \<in> set g. id_char c) \<and> (suf = [] \<or> \<not> id_char (hd suf)))"

definition occurs :: "string \<Rightarrow> string \<Rightarrow> bool" where
  "occurs lit url \<longleftrightarrow> (\<exists>i g. matches_at lit url i g)"

definition leftmost_match :: "string \<Rightarrow> string \<Rightarrow> string \<Rightarrow> bool" where
  "leftmost_match lit url g \<longleftrightarrow>
     (\<exists>i. matches_at lit url i g \<and> (\<forall>j < i. \<forall>g'. \<not> matches_at lit url j g'))"

definition falsy_str :: "string option \<Rightarrow> bool" where
  \<comment> \<open>Python's \<^verbatim>\<open>not x\<close> for \<open>x\<close> a \<^verbatim>\<open>str\<close> or \<^verbatim>\<open>None\<close>: true of \<^verbatim>\<open>None\<close> and of the empty string\<close>
  "falsy_str x = (case x of None \<Rightarrow> True | Some s \<Rightarrow> s = [])"

section \<open>External services, standard output, session cache\<close>

text \<open>
  The transcript API, the text splitter, the embedding model with the FAISS index, the
  hosted LLM and the conversational chain are libraries and services outside the
  repository. They are parameters of the model. Each of them either returns a value or
  raises; what is raised is an instance of a subclass of \<^verbatim>\<open>Exception\<close> (the kind that
  \<^verbatim>\<open>except Exception\<close> handles), given by its class name and its \<^verbatim>\<open>str()\<close>. A service may
  answer differently from call to call: it is given the list of external calls made so
  far. Vector stores and chains are opaque handles of types \<open>'vs\<close> and \<open>'ch\<close>; as Python
  objects they are truthy, so \<^verbatim>\<open>not vector_store\<close> holds of \<^verbatim>\<open>None\<close> only.

  \<^item> \<open>fetch\<close> is \<^verbatim>\<open>YouTubeTranscriptApi().fetch(video_id)\<close>, read as the list of the \<^verbatim>\<open>.text\<close> of
    its items;
  \<^item> \<open>split_text\<close> is \<^verbatim>\<open>split_text\<close> of the \<^verbatim>\<open>CharacterTextSplitter\<close> built with the given
    parameters;
  \<^item> \<open>from_texts\<close> is the construction of the embeddings followed by \<^verbatim>\<open>FAISS.from_texts\<close>;
  \<^item> \<open>from_llm\<close> is the construction of \<^verbatim>\<open>ChatGroq\<close> followed by
    \<^verbatim>\<open>ConversationalRetrievalChain.from_llm\<close>;
  \<^item> \<open>invoke\<close> is the call of the chain on a question and a chat history; what it
    returns is a dictionary, here a list of key/value pairs. A value is a \<^verbatim>\<open>str\<close> or some
    other object, of which only its \<^verbatim>\<open>str()\<close> matters here;
  \<^item> \<open>stdout\<close> is the stream \<^verbatim>\<open>print\<close> writes to: for a text it says whether writing it
    raises (the stream's encoding cannot encode it) or not;
  \<^item> \<open>validation_error\<close> is the exception the response model raises for an answer that
    is not a \<^verbatim>\<open>str\<close>, given the \<^verbatim>\<open>str()\<close> of that answer.
\<close>

datatype py_exception = PyException (exc_type: string) (exc_str: string)

datatype py_value = Str string | NotStr string

fun py_str :: "py_value \<Rightarrow> string" where
  \<comment> \<open>\<^verbatim>\<open>str(v)\<close>, as an f-string formats a value\<close>
  "py_str (Str s) = s"
| "py_str (NotStr r) = r"

type_synonym history = "(string \<times> py_value) list"

record splitter =
  separator :: string
  chunk_size :: nat
  chunk_overlap :: nat

datatype ('vs, 'ch) call =
    FetchTranscript string
  | SplitText splitter string
  | FromTexts "string list"
  | FromLLM 'vs
  | InvokeChain 'ch string history

record ('vs, 'ch) services =
  fetch :: "('vs, 'ch) call list \<Rightarrow> string \<Rightarrow> py_exception + string list"
  split_text :: "('vs, 'ch) call list \<Rightarrow> splitter \<Rightarrow> string \<Rightarrow> py_exception + string list"
  from_texts :: "('vs, 'ch) call list \<Rightarrow> string list \<Rightarrow> py_exception + 'vs"
  from_llm :: "('vs, 'ch) call list \<Rightarrow> 'vs \<Rightarrow> py_exception + 'ch"
  invoke :: "('vs, 'ch) call list \<Rightarrow> 'ch \<Rightarrow> string \<Rightarrow> history
               \<Rightarrow> py_exception + (string \<times> py_value) list"
  stdout :: "string \<Rightarrow> py_exception option"
  validation_error :: "string \<Rightarrow> py_exception"

record 'ch session =
  qa_chain :: 'ch
  chat_history :: history

record ('vs, 'ch) world =
  session_cache :: "string \<rightharpoonup> 'ch session"
  calls :: "('vs, 'ch) call list"

definition record_call :: "('vs, 'ch) call \<Rightarrow> ('vs, 'ch) world \<Rightarrow> ('vs, 'ch) world" where
  "record_call c w = w\<lparr>calls := calls w @ [c]\<rparr>"

text \<open>
  A call of a service: the service answers on the arguments it is given, and the call,
  with these arguments, is added to the list of calls.
\<close>

definition call_fetch ::
  "('vs, 'ch) services \<Rightarrow> string \<Rightarrow> ('vs, 'ch) world
     \<Rightarrow> (py_exception + string list) \<times> ('vs, 'ch) world" where
  "call_fetch sv video_id w = (fetch sv (calls w) video_id, record_call (FetchTranscript video_id) w)"

definition call_split_text ::
  "('vs, 'ch) services \<Rightarrow> splitter \<Rightarrow> string \<Rightarrow> ('vs, 'ch) world
     \<Rightarrow> (py_exception + string list) \<times> ('vs, 'ch) world" where
  "call_split_text sv sp text w = (split_text sv (calls w) sp text, record_call (SplitText sp text) w)"

definition call_from_texts ::
  "('vs, 'ch) services \<Rightarrow> string list \<Rightarrow> ('vs, 'ch) world
     \<Rightarrow> (py_exception + 'vs) \<times> ('vs, 'ch) world" where
  "call_from_texts sv chunks w = (from_texts sv (calls w) chunks, record_call (FromTexts chunks) w)"

definition call_from_llm ::
  "('vs, 'ch) services \<Rightarrow> 'vs \<Rightarrow> ('vs, 'ch) world
     \<Rightarrow> (py_exception + 'ch) \<times> ('vs, 'ch) world" where
  "call_from_llm sv vector_store w =
     (from_llm sv (calls w) vector_store, record_call (FromLLM vector_store) w)"

definition call_invoke ::
  "('vs, 'ch) services \<Rightarrow> 'ch \<Rightarrow> string \<Rightarrow> history \<Rightarrow> ('vs, 'ch) world
     \<Rightarrow> (py_exception + (string \<times> py_value) list) \<times> ('vs, 'ch) world" where
  "call_invoke sv chain q hist w =
     (invoke sv (calls w) chain q hist, record_call (InvokeChain chain q hist) w)"

text \<open>
  \<^verbatim>\<open>print\<close> raises when the stream cannot take the text. A text of ASCII characters only is
  taken by every stream considered here (the stream is open and its encoding extends
  ASCII); for any other text the stream decides. The prints of the source whose text is
  ASCII by construction are therefore left out of the model: the fixed banners, the
  banner with the length of the transcript, and the two banners of \<^verbatim>\<open>process_video\<close> that
  show the id the parser returned. All other prints are modelled.
\<close>

definition is_ascii :: "string \<Rightarrow> bool" where
  "is_ascii s = list_all (\<lambda>c. (of_char c :: nat) < 128) s"

definition py_print :: "('vs, 'ch) services \<Rightarrow> string \<Rightarrow> py_exception + unit" where
  "py_print sv s =
     (if is_ascii s then Inr ()
      else (case stdout sv s of None \<Rightarrow> Inr () | Some e \<Rightarrow> Inl e))"

definition except_print_return_None ::
  "('vs, 'ch) services \<Rightarrow> string \<Rightarrow> (py_exception + 'a) \<times> 'w
     \<Rightarrow> (py_exception + 'a option) \<times> 'w" where
  \<comment> \<open>\<^verbatim>\<open>try: ... return v  except Exception as e: print(f'<label>{e}'); return None\<close>. The
      result is \<open>Inl\<close> when an exception leaves the function: the one the handler's own
      \<^verbatim>\<open>print\<close> raises.\<close>
  "except_print_return_None sv label r =
     (case r of
        (Inr v, w) \<Rightarrow> (Inr (Some v), w)
      | (Inl e, w) \<Rightarrow>
          (case py_print sv (label @ exc_str e) of
             Inl e' \<Rightarrow> (Inl e', w)
           | Inr _ \<Rightarrow> (Inr None, w)))"

fun join :: "string \<Rightarrow> string list \<Rightarrow> string" where
  \<comment> \<open>\<^verbatim>\<open>sep.join(xs)\<close>\<close>
  "join sep [] = []"
| "join sep [x] = x"
| "join sep (x # y # ys) = x @ sep @ join sep (y # ys)"

definition get_transcript_from_youtube ::
  "('vs, 'ch) services \<Rightarrow> string \<Rightarrow> ('vs, 'ch) world
     \<Rightarrow> (py_exception + string option) \<times> ('vs, 'ch) world" where
  "get_transcript_from_youtube sv video_id w =
     except_print_return_None sv ''Error fetching transcript: ''
       (case call_fetch sv video_id w of
          (Inl e, w1) \<Rightarrow> (Inl e, w1)
        | (Inr transcript_list, w1) \<Rightarrow> (Inr (join '' '' transcript_list), w1))"

definition text_splitter :: splitter where
  "text_splitter = \<lparr>separator = [CHR 0x0A], chunk_size = 1000, chunk_overlap = 200\<rparr>"

definition create_vector_store ::
  "('vs, 'ch) services \<Rightarrow> string \<Rightarrow> ('vs, 'ch) world
     \<Rightarrow> (py_exception + 'vs option) \<times> ('vs, 'ch) world" where
  "create_vector_store sv text_content w =
     except_print_return_None sv ''Error creating vector store: ''
       (case call_split_text sv text_splitter text_content w of
          (Inl e, w1) \<Rightarrow> (Inl e, w1)
        | (Inr chunks, w1) \<Rightarrow>
            (case call_from_texts sv chunks w1 of
               (Inl e, w2) \<Rightarrow> (Inl e, w2)
             | (Inr vector_store, w2) \<Rightarrow> (Inr vector_store, w2)))"

definition create_qa_chain ::
  "('vs, 'ch) services \<Rightarrow> 'vs \<Rightarrow> ('vs, 'ch) world
     \<Rightarrow> (py_exception + 'ch option) \<times> ('vs, 'ch) world" where
  "create_qa_chain sv vector_store w =
     except_print_return_None sv ''Error creating Q&A chain: ''
       (case call_from_llm sv vector_store w of
          (Inl e, w1) \<Rightarrow> (Inl e, w1)
        | (Inr chain, w1) \<Rightarrow> (Inr chain, w1))"

section \<open>Endpoints\<close>

datatype ProcessRequest = ProcessRequest (video_url: string)

datatype ProcessResponse = ProcessResponse (video_id: string) (message: string)

datatype AskRequest = AskRequest (ask_video_id: string) (question: string)

datatype AskResponse = AskResponse (answer: string)

text \<open>
  A handler either returns its response model or raises. What it raises itself is an
  \<^verbatim>\<open>HTTPException\<close> with a status code and a detail; \<open>Uncaught\<close> is any other exception that
  leaves the handler: one that left a helper function, or one raised by a \<^verbatim>\<open>print\<close> of the
  handler outside its \<^verbatim>\<open>try\<close>. The framework answers an \<^verbatim>\<open>HTTPException\<close> with its status
  code and any other exception with status 500. The session cache is the global
  dictionary \<^verbatim>\<open>session_cache\<close>; a session dictionary and its history list are reachable
  through the cache only, so appending to the list in place is an update of the cache
  entry.
\<close>

datatype error =
    HTTPException (status_code: nat) (detail: string)
  | Uncaught py_exception


definition process_video ::
  "('vs, 'ch) services \<Rightarrow> ProcessRequest \<Rightarrow> ('vs, 'ch) world
     \<Rightarrow> (error + ProcessResponse) \<times> ('vs, 'ch) world" where
  "process_video sv request w =
     (let vid_opt = get_video_id_from_url (video_url request) in
      if falsy_str vid_opt then (Inl (HTTPException 400 ''Invalid YouTube URL''), w)
      else
        let vid = the vid_opt in
       (case session_cache w vid of
          Some _ \<Rightarrow> (Inr (ProcessResponse vid ''Video already processed''), w)
        | None \<Rightarrow>
           (case get_transcript_from_youtube sv vid w of
              (Inl e, w1) \<Rightarrow> (Inl (Uncaught e), w1)
            | (Inr transcript, w1) \<Rightarrow>
                if falsy_str transcript
                then (Inl (HTTPException 404 ''Could not fetch transcript''), w1)
                else
                 (case create_vector_store sv (the transcript) w1 of
                    (Inl e, w2) \<Rightarrow> (Inl (Uncaught e), w2)
                  | (Inr None, w2) \<Rightarrow>
                      (Inl (HTTPException 500 ''Could not create vector store''), w2)
                  | (Inr (Some vector_store), w2) \<Rightarrow>
                     (case create_qa_chain sv vector_store w2 of
                        (Inl e, w3) \<Rightarrow> (Inl (Uncaught e), w3)
                      | (Inr None, w3) \<Rightarrow>
                          (Inl (HTTPException 500 ''Could not create Q&A chain''), w3)
                      | (Inr (Some chain), w3) \<Rightarrow>
                          (Inr (ProcessResponse vid ''Video processed successfully''),
                           w3\<lparr>session_cache := (session_cache w3)
                                (vid \<mapsto> \<lparr>qa_chain = chain, chat_history = []\<rparr>)\<rparr>))))))"

definition key_error :: "string \<Rightarrow> py_exception" where
  \<comment> \<open>\<^verbatim>\<open>KeyError(k)\<close>, whose \<^verbatim>\<open>str()\<close> is the \<^verbatim>\<open>repr\<close> of the key\<close>
  "key_error k = PyException ''KeyError'' ([CHR 0x27] @ k @ [CHR 0x27])"

definition AskResponse_init :: "('vs, 'ch) services \<Rightarrow> py_value \<Rightarrow> py_exception + AskResponse" where
  \<comment> \<open>\<^verbatim>\<open>AskResponse(answer=v)\<close>: the field is declared \<^verbatim>\<open>str\<close>; a value that is not a \<^verbatim>\<open>str\<close> is
      rejected\<close>
  "AskResponse_init sv v =
     (case v of Str s \<Rightarrow> Inr (AskResponse s) | NotStr r \<Rightarrow> Inl (validation_error sv r))"

definition except_raise_500 ::
  "('vs, 'ch) services \<Rightarrow> (py_exception + 'a) \<times> 'w \<Rightarrow> (error + 'a) \<times> 'w" where
  \<comment> \<open>\<^verbatim>\<open>try: ... return v  except Exception as e: print(f'Error during Q&A: {e}');
      raise HTTPException(status_code=500, detail=f'An error occurred: {e}')\<close>\<close>
  "except_raise_500 sv r =
     (case r of
        (Inr v, w) \<Rightarrow> (Inr v, w)
      | (Inl e, w) \<Rightarrow>
          (case py_print sv (''Error during Q&A: '' @ exc_str e) of
             Inl e' \<Rightarrow> (Inl (Uncaught e'), w)
           | Inr _ \<Rightarrow> (Inl (HTTPException 500 (''An error occurred: '' @ exc_str e)), w)))"

definition ask_question ::
  "('vs, 'ch) services \<Rightarrow> AskRequest \<Rightarrow> ('vs, 'ch) world
     \<Rightarrow> (error + AskResponse) \<times> ('vs, 'ch) world" where
  "ask_question sv request w =
     (let vid = ask_video_id request in
      case session_cache w vid of
        None \<Rightarrow>
          (Inl (HTTPException 404 ''Video not processed. Call /process-video first.''), w)
      | Some session \<Rightarrow>
         (case py_print sv (''--- New question for '' @ vid @ '' ---'') of
            Inl e \<Rightarrow> (Inl (Uncaught e), w)
          | Inr _ \<Rightarrow>
             (let hist = chat_history session in
              except_raise_500 sv
               (case call_invoke sv (qa_chain session) (question request) hist w of
                  (Inl e, w1) \<Rightarrow> (Inl e, w1)
                | (Inr result, w1) \<Rightarrow>
                   (case map_of result ''answer'' of
                      None \<Rightarrow> (Inl (key_error ''answer''), w1)
                    | Some ans \<Rightarrow>
                       (let w2 = w1\<lparr>session_cache := (session_cache w1)
                                  (vid \<mapsto> session\<lparr>chat_history :=
                                             hist @ [(question request, ans)]\<rparr>)\<rparr>
                        in
                         (case py_print sv (''Answer: '' @ py_str ans) of
                            Inl e \<Rightarrow> (Inl e, w2)
                          | Inr _ \<Rightarrow>
                             (case AskResponse_init sv ans of
                                Inl e \<Rightarrow> (Inl e, w2)
                              | Inr resp \<Rightarrow> (Inr resp, w2)))))))))"

section \<open>The server\<close>

text \<open>
  The handlers are \<^verbatim>\<open>async def\<close> functions without any \<^verbatim>\<open>await\<close>: once started, a handler
  runs to its end before the event loop starts the next one. The server is therefore a
  sequence of requests, each handled on the state its predecessor left. The cache is
  empty when the process starts.
\<close>

datatype request = Process ProcessRequest | Ask AskRequest | Root

datatype response =
    Processed "error + ProcessResponse"
  | Asked "error + AskResponse"
  | Live string

definition read_root :: string where
  "read_root =
     ''YouTube Q&A Backend is running. Use the /process-video and /ask-question endpoints.''"

fun handle ::
  "('vs, 'ch) services \<Rightarrow> request \<Rightarrow> ('vs, 'ch) world \<Rightarrow> response \<times> ('vs, 'ch) world" where
  "handle sv (Process rq) w = (case process_video sv rq w of (r, w') \<Rightarrow> (Processed r, w'))"
| "handle sv (Ask rq) w = (case ask_question sv rq w of (r, w') \<Rightarrow> (Asked r, w'))"
| "handle sv Root w = (Live read_root, w)"

fun serve ::
  "('vs, 'ch) services \<Rightarrow> request list \<Rightarrow> ('vs, 'ch) world
     \<Rightarrow> response list \<times> ('vs, 'ch) world" where
  "serve sv [] w = ([], w)"
| "serve sv (rq # rqs) w =
     (case handle sv rq w of
        (r, w1) \<Rightarrow> (case serve sv rqs w1 of (rs, w2) \<Rightarrow> (r # rs, w2)))"

definition initial_world :: "('vs, 'ch) world" where
  "initial_world = \<lparr>session_cache = Map.empty, calls = []\<rparr>"

text \<open>Observations on a run: whether a video was processed with success; the successful
  question/answer turns of a video, in the order of the requests; and whether every
  question about a video was answered.\<close>

definition successfully_processed :: "string \<Rightarrow> response list \<Rightarrow> bool" where
  "successfully_processed vid resps =
     list_ex (\<lambda>r. case r of Processed (Inr pr) \<Rightarrow> video_id pr = vid | _ \<Rightarrow> False) resps"





text \<open>Concrete services for the examples: handles are numbers; the video \<^verbatim>\<open>abc\<close> has a
  transcript of two segments, every other video has none; the chain fails on the
  question \<^verbatim>\<open>boom\<close>; the standard output takes every text. In \<open>silent_services\<close> every
  transcript is one empty segment. In \<open>ascii_services\<close> the standard output takes ASCII
  only, fetching the transcript of a video other than \<^verbatim>\<open>abc\<close> fails with a message that
  has an accented letter (bytes C3 A9), and so has every answer of the chain.\<close>

definition demo_services :: "(nat, nat) services" where
  "demo_services =
     \<lparr>fetch = (\<lambda>log vid. if vid = ''abc'' then Inr [''hello'', ''world'']
                          else Inl (PyException ''VideoUnavailable'' ''no such video'')),
      split_text = (\<lambda>log sp text. Inr [text]),
      from_texts = (\<lambda>log chunks. Inr (length chunks)),
      from_llm = (\<lambda>log vs. Inr (Suc vs)),
      invoke = (\<lambda>log ch q h. if q = ''boom'' then Inl (PyException ''RuntimeError'' ''rate limit'')
                              else Inr [(''question'', Str q), (''answer'', Str (''re: '' @ q))]),
      stdout = (\<lambda>s. None),
      validation_error = (\<lambda>r. PyException ''ValidationError'' ''answer: not a string'')\<rparr>"

definition silent_services :: "(nat, nat) services" where
  "silent_services = demo_services\<lparr>fetch := (\<lambda>log vid. Inr [[]])\<rparr>"

definition ascii_services :: "(nat, nat) services" where
  "ascii_services = demo_services
     \<lparr>fetch := (\<lambda>log vid. if vid = ''abc'' then Inr [''hello'', ''world'']
                           else Inl (PyException ''ConnectionError''
                                  (''Connexion refus'' @ [CHR 0xC3, CHR 0xA9] @ ''e''))),
      invoke := (\<lambda>log ch q h. Inr [(''answer'', Str (''caf'' @ [CHR 0xC3, CHR 0xA9]))]),
      stdout := (\<lambda>s. Some (PyException ''UnicodeEncodeError'' ''ordinal not in range(128)''))\<rparr>"

text \<open>The errors that \<^verbatim>\<open>process_video\<close> raises itself once the URL has been parsed.\<close>

definition pipeline_errors :: "error set" where
  "pipeline_errors = {HTTPException 404 ''Could not fetch transcript'',
     HTTPException 500 ''Could not create vector store'',
     HTTPException 500 ''Could not create Q&A chain''}"

text \<open>What \<^verbatim>\<open>process_video\<close> can fail with once the URL has been parsed: its own three errors,
  or an exception that the standard output raised in the handler of a helper.\<close>

definition failures :: "('vs, 'ch) services \<Rightarrow> (error + ProcessResponse) set" where
  "failures sv = Inl ` (pipeline_errors \<union> {Uncaught e | e. \<exists>s. stdout sv s = Some e})"

text \<open>The state after the chain of session \<open>s\<close> was invoked with question \<open>q\<close>, and the state
  after the pair of \<open>q\<close> and the answer was appended to the history as well.\<close>

definition invoked :: "'ch session \<Rightarrow> string \<Rightarrow> ('vs, 'ch) world \<Rightarrow> ('vs, 'ch) world" where
  "invoked s q w = w\<lparr>calls := calls w @ [InvokeChain (qa_chain s) q (chat_history s)]\<rparr>"

definition appended ::
  "string \<Rightarrow> 'ch session \<Rightarrow> string \<Rightarrow> py_value \<Rightarrow> ('vs, 'ch) world \<Rightarrow> ('vs, 'ch) world" where
  "appended vid s q ans w =
     (invoked s q w)\<lparr>session_cache := (session_cache w)
        (vid \<mapsto> s\<lparr>chat_history := chat_history s @ [(q, ans)]\<rparr>)\<rparr>"

section \<open>Properties of the URL parser\<close>

lemma match_here_iff: "match_here lit s = Some g \<longleftrightarrow> matches_at lit s 0 g"
proof
  assume m: "match_here lit s = Some g"
  then have t: "take (length lit) s = lit"
    and g: "g = takeWhile id_char (drop (length lit) s)" and ne: "g \<noteq> []"
    by (auto simp: match_here_def Let_def split: if_splits)
  let ?suf = "dropWhile id_char (drop (length lit) s)"
  have "s = take (length lit) s @ drop (length lit) s" by simp
  also have "\<dots> = lit @ g @ ?suf" using t g by simp
  finally have s: "s = [] @ lit @ g @ ?suf" by simp
  have "\<forall>c \<in> set g. id_char c" using g by (auto dest: set_takeWhileD)
  moreover have "?suf = [] \<or> \<not> id_char (hd ?suf)" using hd_dropWhile by blast
  ultimately show "matches_at lit s 0 g"
    unfolding matches_at_def using s ne by blast
next
  assume "matches_at lit s 0 g"
  then obtain suf where s: "s = lit @ g @ suf" and ne: "g \<noteq> []"
    and al: "\<forall>c \<in> set g. id_char c" and mx: "suf = [] \<or> \<not> id_char (hd suf)"
    by (auto simp: matches_at_def)
  have "takeWhile id_char suf = []" using mx by (cases suf) auto
  then have "takeWhile id_char (g @ suf) = g" using al by simp
  then show "match_here lit s = Some g" using s ne by (simp add: match_here_def)
qed

lemma matches_at_Cons_Suc: "matches_at lit (c # cs) (Suc i) g \<longleftrightarrow> matches_at lit cs i g"
proof
  assume "matches_at lit (c # cs) (Suc i) g"
  then obtain pre suf where s: "c # cs = pre @ lit @ g @ suf" and l: "length pre = Suc i"
    and r: "g \<noteq> []" "\<forall>c \<in> set g. id_char c" "suf = [] \<or> \<not> id_char (hd suf)"
    unfolding matches_at_def by blast
  from l obtain p ps where p: "pre = p # ps" by (cases pre) auto
  with s l have "cs = ps @ lit @ g @ suf" "length ps = i" by auto
  with r show "matches_at lit cs i g" unfolding matches_at_def by blast
next
  assume "matches_at lit cs i g"
  then obtain pre suf where s: "cs = pre @ lit @ g @ suf" and l: "length pre = i"
    and r: "g \<noteq> []" "\<forall>c \<in> set g. id_char c" "suf = [] \<or> \<not> id_char (hd suf)"
    unfolding matches_at_def by blast
  have "c # cs = (c # pre) @ lit @ g @ suf" "length (c # pre) = Suc i" using s l by auto
  with r show "matches_at lit (c # cs) (Suc i) g" unfolding matches_at_def by blast
qed

lemma matches_at_Nil: "\<not> matches_at lit [] i g"
  by (auto simp: matches_at_def)

lemma re_search_Some_iff: "re_search lit s = Some g \<longleftrightarrow> leftmost_match lit s g"
proof (induction s)
  case Nil
  have "match_here lit [] = None" by (simp add: match_here_def)
  then show ?case by (simp add: leftmost_match_def matches_at_Nil)
next
  case (Cons c cs)
  show ?case
  proof (cases "match_here lit (c # cs)")
    case (Some g0)
    then have m0: "matches_at lit (c # cs) 0 g0" by (simp add: match_here_iff)
    have "leftmost_match lit (c # cs) g \<longleftrightarrow> g = g0"
    proof
      assume "leftmost_match lit (c # cs) g"
      then obtain i where i: "matches_at lit (c # cs) i g"
        and lm: "\<forall>j < i. \<forall>g'. \<not> matches_at lit (c # cs) j g'"
        unfolding leftmost_match_def by blast
      from lm m0 have "i = 0" by (cases i) auto
      with i have "match_here lit (c # cs) = Some g" by (simp add: match_here_iff)
      with Some show "g = g0" by simp
    next
      assume "g = g0"
      with m0 show "leftmost_match lit (c # cs) g" unfolding leftmost_match_def by auto
    qed
    with Some show ?thesis by auto
  next
    case None
    then have no0: "\<And>g'. \<not> matches_at lit (c # cs) 0 g'"
      using match_here_iff [of lit "c # cs"] by simp
    have "leftmost_match lit (c # cs) g \<longleftrightarrow> leftmost_match lit cs g"
    proof
      assume "leftmost_match lit (c # cs) g"
      then obtain i where i: "matches_at lit (c # cs) i g"
        and lm: "\<forall>j < i. \<forall>g'. \<not> matches_at lit (c # cs) j g'"
        unfolding leftmost_match_def by blast
      from i no0 obtain k where k: "i = Suc k" by (cases i) auto
      have "matches_at lit cs k g" using i k by (simp add: matches_at_Cons_Suc)
      moreover have "\<forall>j < k. \<forall>g'. \<not> matches_at lit cs j g'"
      proof (intro allI impI)
        fix j g' assume "j < k"
        then have "Suc j < i" using k by simp
        with lm have "\<not> matches_at lit (c # cs) (Suc j) g'" by blast
        then show "\<not> matches_at lit cs j g'" by (simp add: matches_at_Cons_Suc)
      qed
      ultimately show "leftmost_match lit cs g" unfolding leftmost_match_def by blast
    next
      assume "leftmost_match lit cs g"
      then obtain k where k: "matches_at lit cs k g"
        and lm: "\<forall>j < k. \<forall>g'. \<not> matches_at lit cs j g'"
        unfolding leftmost_match_def by blast
      have "matches_at lit (c # cs) (Suc k) g" using k by (simp add: matches_at_Cons_Suc)
      moreover have "\<forall>j < Suc k. \<forall>g'. \<not> matches_at lit (c # cs) j g'"
      proof (intro allI impI)
        fix j g' assume j: "j < Suc k"
        show "\<not> matches_at lit (c # cs) j g'"
        proof (cases j)
          case 0 then show ?thesis using no0 by simp
        next
          case (Suc j') then show ?thesis using j lm by (simp add: matches_at_Cons_Suc)
        qed
      qed
      ultimately show "leftmost_match lit (c # cs) g" unfolding leftmost_match_def by blast
    qed
    with None Cons.IH show ?thesis by simp
  qed
qed

lemma occurs_leftmost: "occurs lit s \<longleftrightarrow> (\<exists>g. leftmost_match lit s g)"
proof
  assume "occurs lit s"
  then have ex: "\<exists>i. \<exists>g. matches_at lit s i g" by (simp add: occurs_def)
  define i where "i = (LEAST i. \<exists>g. matches_at lit s i g)"
  have "\<exists>g. matches_at lit s i g" unfolding i_def using ex by (rule LeastI_ex)
  moreover have "\<forall>j < i. \<forall>g'. \<not> matches_at lit s j g'"
    unfolding i_def using not_less_Least by blast
  ultimately show "\<exists>g. leftmost_match lit s g" unfolding leftmost_match_def by blast
next
  assume "\<exists>g. leftmost_match lit s g"
  then show "occurs lit s" unfolding leftmost_match_def occurs_def by blast
qed

lemma re_search_None_iff: "re_search lit s = None \<longleftrightarrow> \<not> occurs lit s"
proof -
  have "re_search lit s = None \<longleftrightarrow> (\<forall>g. re_search lit s \<noteq> Some g)" by auto
  then show ?thesis by (simp add: re_search_Some_iff occurs_leftmost)
qed

lemma first_match_None_iff:
  "first_match ps url = None \<longleftrightarrow> (\<forall>p \<in> set ps. \<not> occurs p url)"
proof (induction ps)
  case Nil
  then show ?case by simp
next
  case (Cons p ps)
  show ?case
  proof (cases "re_search p url")
    case None
    then have "\<not> occurs p url" by (simp add: re_search_None_iff)
    with None Cons.IH show ?thesis by simp
  next
    case (Some g0)
    then have "occurs p url" using re_search_None_iff [of p url] by simp
    with Some show ?thesis by simp
  qed
qed

lemma first_match_Some_iff:
  "first_match ps url = Some g \<longleftrightarrow>
     (\<exists>k < length ps. (\<forall>j < k. \<not> occurs (ps ! j) url) \<and> leftmost_match (ps ! k) url g)"
proof (induction ps)
  case Nil
  then show ?case by simp
next
  case (Cons p ps)
  show ?case
  proof (cases "re_search p url")
    case (Some g0)
    then have lm: "leftmost_match p url g0" by (simp add: re_search_Some_iff)
    then have oc: "occurs p url" using occurs_leftmost by blast
    have "(\<exists>k < length (p # ps). (\<forall>j < k. \<not> occurs ((p # ps) ! j) url)
             \<and> leftmost_match ((p # ps) ! k) url g) \<longleftrightarrow> g = g0"
    proof
      assume "\<exists>k < length (p # ps). (\<forall>j < k. \<not> occurs ((p # ps) ! j) url)
                \<and> leftmost_match ((p # ps) ! k) url g"
      then obtain k where k: "\<forall>j < k. \<not> occurs ((p # ps) ! j) url"
        "leftmost_match ((p # ps) ! k) url g" by blast
      from k(1) oc have "k = 0" by (cases k) auto
      with k(2) have "re_search p url = Some g" by (simp add: re_search_Some_iff)
      with Some show "g = g0" by simp
    next
      assume "g = g0"
      with lm have "(\<forall>j < (0::nat). \<not> occurs ((p # ps) ! j) url)
                      \<and> leftmost_match ((p # ps) ! 0) url g" by simp
      then show "\<exists>k < length (p # ps). (\<forall>j < k. \<not> occurs ((p # ps) ! j) url)
                   \<and> leftmost_match ((p # ps) ! k) url g" by (intro exI [of _ 0]) simp
    qed
    with Some show ?thesis by auto
  next
    case None
    then have no: "\<not> occurs p url" by (simp add: re_search_None_iff)
    then have nl: "\<And>g'. \<not> leftmost_match p url g'" using occurs_leftmost by blast
    have "(\<exists>k < length (p # ps). (\<forall>j < k. \<not> occurs ((p # ps) ! j) url)
             \<and> leftmost_match ((p # ps) ! k) url g)
          \<longleftrightarrow> (\<exists>k < length ps. (\<forall>j < k. \<not> occurs (ps ! j) url) \<and> leftmost_match (ps ! k) url g)"
    proof
      assume "\<exists>k < length (p # ps). (\<forall>j < k. \<not> occurs ((p # ps) ! j) url)
                \<and> leftmost_match ((p # ps) ! k) url g"
      then obtain k where k: "k < length (p # ps)" "\<forall>j < k. \<not> occurs ((p # ps) ! j) url"
        "leftmost_match ((p # ps) ! k) url g" by blast
      from k(3) nl obtain k' where k': "k = Suc k'" by (cases k) auto
      have "\<forall>j < k'. \<not> occurs (ps ! j) url"
      proof (intro allI impI)
        fix j assume "j < k'"
        then have "Suc j < k" using k' by simp
        with k(2) have "\<not> occurs ((p # ps) ! Suc j) url" by blast
        then show "\<not> occurs (ps ! j) url" by simp
      qed
      with k k' show "\<exists>k < length ps. (\<forall>j < k. \<not> occurs (ps ! j) url)
                        \<and> leftmost_match (ps ! k) url g" by auto
    next
      assume "\<exists>k < length ps. (\<forall>j < k. \<not> occurs (ps ! j) url) \<and> leftmost_match (ps ! k) url g"
      then obtain k where k: "k < length ps" "\<forall>j < k. \<not> occurs (ps ! j) url"
        "leftmost_match (ps ! k) url g" by blast
      have "\<forall>j < Suc k. \<not> occurs ((p # ps) ! j) url"
      proof (intro allI impI)
        fix j assume j: "j < Suc k"
        show "\<not> occurs ((p # ps) ! j) url"
          using j k(2) no by (cases j) auto
      qed
      with k show "\<exists>k < length (p # ps). (\<forall>j < k. \<not> occurs ((p # ps) ! j) url)
                     \<and> leftmost_match ((p # ps) ! k) url g"
        by (intro exI [of _ "Suc k"]) simp
    qed
    with None Cons.IH show ?thesis by simp
  qed
qed

lemma occurs_set: "occurs lit url \<Longrightarrow> set lit \<subseteq> set url"
  by (auto simp: occurs_def matches_at_def)

lemma re_search_exact:
  assumes "ID \<noteq> []" "\<forall>c \<in> set ID. id_char c"
  shows "re_search lit (lit @ ID) = Some ID"
proof -
  have "matches_at lit (lit @ ID) 0 ID"
    unfolding matches_at_def using assms by (intro exI [of _ "[]"]) simp
  then have "leftmost_match lit (lit @ ID) ID"
    unfolding leftmost_match_def by (intro exI [of _ 0]) simp
  then show ?thesis by (simp add: re_search_Some_iff)
qed

lemma not_id_char_punct: "\<not> id_char CHR ''?''" "\<not> id_char CHR ''.''"
  by (simp_all add: id_char_def)

lemma get_video_id_shapes:
  assumes "ID \<noteq> []" "\<forall>c \<in> set ID. id_char c"
  shows "get_video_id_from_url (''watch?v='' @ ID) = Some ID"
    and "get_video_id_from_url (''youtu.be/'' @ ID) = Some ID"
    and "get_video_id_from_url (''embed/'' @ ID) = Some ID"
proof -
  have q: "CHR ''?'' \<notin> set ID" and d: "CHR ''.'' \<notin> set ID"
    using assms(2) not_id_char_punct by blast+
  show "get_video_id_from_url (''watch?v='' @ ID) = Some ID"
    using re_search_exact [OF assms, of "''watch?v=''"]
    by (simp add: get_video_id_from_url_def patterns_def)
  have "\<not> occurs ''watch?v='' (''youtu.be/'' @ ID)"
    using q occurs_set [of "''watch?v=''" "''youtu.be/'' @ ID"] by auto
  then have n1: "re_search ''watch?v='' (''youtu.be/'' @ ID) = None"
    by (rule re_search_None_iff [THEN iffD2])
  show "get_video_id_from_url (''youtu.be/'' @ ID) = Some ID"
    using n1 re_search_exact [OF assms, of "''youtu.be/''"]
    by (simp add: get_video_id_from_url_def patterns_def)
  have "\<not> occurs ''watch?v='' (''embed/'' @ ID)"
    using q occurs_set [of "''watch?v=''" "''embed/'' @ ID"] by auto
  then have n2: "re_search ''watch?v='' (''embed/'' @ ID) = None"
    by (rule re_search_None_iff [THEN iffD2])
  have "\<not> occurs ''youtu.be/'' (''embed/'' @ ID)"
    using d occurs_set [of "''youtu.be/''" "''embed/'' @ ID"] by auto
  then have n3: "re_search ''youtu.be/'' (''embed/'' @ ID) = None"
    by (rule re_search_None_iff [THEN iffD2])
  show "get_video_id_from_url (''embed/'' @ ID) = Some ID"
    using n2 n3 re_search_exact [OF assms, of "''embed/''"]
    by (simp add: get_video_id_from_url_def patterns_def)
qed

text \<open>
  Claim C1. For every input string the parser returns nothing exactly when none of the
  three patterns \<^verbatim>\<open>watch?v=\<close>, \<^verbatim>\<open>youtu.be/\<close>, \<^verbatim>\<open>embed/\<close> matches anywhere in it; and it returns
  \<open>g\<close> exactly when \<open>g\<close> is what the first pattern of the list that matches somewhere
  captures at its leftmost match: a non-empty run of letters, digits, underscores and
  hyphens that cannot be extended to the right. In particular each of the three shapes,
  followed by an identifier \<open>ID\<close>, parses to \<open>ID\<close>.
\<close>

theorem get_video_id_from_url_first_match:
  "(get_video_id_from_url url = None \<longleftrightarrow> (\<forall>p \<in> set patterns. \<not> occurs p url)) \<and>
   (get_video_id_from_url url = Some g \<longleftrightarrow>
      (\<exists>k < length patterns. (\<forall>j < k. \<not> occurs (patterns ! j) url)
          \<and> leftmost_match (patterns ! k) url g)) \<and>
   patterns = [''watch?v='', ''youtu.be/'', ''embed/''] \<and>
   (ID \<noteq> [] \<and> (\<forall>c \<in> set ID. id_char c) \<longrightarrow>
      get_video_id_from_url (''watch?v='' @ ID) = Some ID \<and>
      get_video_id_from_url (''youtu.be/'' @ ID) = Some ID \<and>
      get_video_id_from_url (''embed/'' @ ID) = Some ID)"
  unfolding get_video_id_from_url_def [of url]
  using first_match_None_iff [of patterns url] first_match_Some_iff [of patterns url g]
    get_video_id_shapes [of ID]
  by (simp add: patterns_def)

text \<open>Claim C1, at concrete URLs.\<close>

theorem get_video_id_from_url_first_match_witness:
  "get_video_id_from_url ''not a url'' = None \<and>
   get_video_id_from_url ''https://www.youtube.com/watch?v=dQw4w9WgXcQ&t=42s'' = Some ''dQw4w9WgXcQ'' \<and>
   get_video_id_from_url ''watch?v=a_B-9'' = Some ''a_B-9'' \<and>
   get_video_id_from_url ''youtu.be/a_B-9'' = Some ''a_B-9'' \<and>
   get_video_id_from_url ''embed/a_B-9'' = Some ''a_B-9''"
proof -
  have h: "''a_B-9'' \<noteq> [] \<and> (\<forall>c \<in> set ''a_B-9''. id_char c)"
    by (simp add: id_char_def)
  have a: "get_video_id_from_url ''not a url'' = None"
    by (simp add: get_video_id_from_url_def patterns_def match_here_def)
  have b: "get_video_id_from_url ''https://www.youtube.com/watch?v=dQw4w9WgXcQ&t=42s'' = Some ''dQw4w9WgXcQ''"
    by (simp add: get_video_id_from_url_def patterns_def match_here_def id_char_def)
  show ?thesis
    using h a b get_video_id_from_url_first_match [of "''not a url''" "''dQw4w9WgXcQ''" "''a_B-9''"]
    by simp
qed

lemma get_video_id_from_url_SomeD:
  assumes "get_video_id_from_url url = Some v"
  shows "v \<noteq> []" and "\<forall>c \<in> set v. id_char c"
  using assms first_match_Some_iff [of patterns url v]
  by (auto simp: get_video_id_from_url_def leftmost_match_def matches_at_def)

lemma falsy_get_video_id: "falsy_str (get_video_id_from_url url) \<longleftrightarrow> get_video_id_from_url url = None"
  using get_video_id_from_url_SomeD(1) [of url]
  by (cases "get_video_id_from_url url") (auto simp: falsy_str_def)

text \<open>
  Claim C10. Whatever the parser returns is a non-empty string of letters, digits,
  underscores and hyphens; hence the endpoint's test \<^verbatim>\<open>not video_id\<close> holds exactly when the
  parser found no match.
\<close>

theorem get_video_id_from_url_nonempty:
  "(get_video_id_from_url url = Some v \<longrightarrow> v \<noteq> [] \<and> (\<forall>c \<in> set v. id_char c)) \<and>
   (falsy_str (get_video_id_from_url url) \<longleftrightarrow> get_video_id_from_url url = None)"
  using get_video_id_from_url_SomeD [of url v] falsy_get_video_id [of url] by blast

text \<open>Claim C10, at a concrete URL.\<close>

theorem get_video_id_from_url_nonempty_witness:
  "get_video_id_from_url ''https://youtu.be/a-1?t=9'' = Some ''a-1'' \<and>
   ''a-1'' \<noteq> [] \<and> list_all id_char ''a-1'' \<and>
   \<not> falsy_str (get_video_id_from_url ''https://youtu.be/a-1?t=9'')"
proof -
  have e: "get_video_id_from_url ''https://youtu.be/a-1?t=9'' = Some ''a-1''"
    by (simp add: get_video_id_from_url_def patterns_def match_here_def id_char_def)
  show ?thesis
    using e get_video_id_from_url_nonempty [of "''https://youtu.be/a-1?t=9''" "''a-1''"]
    by (simp add: list_all_iff)
qed

section \<open>Properties of processing a video\<close>

lemma id_char_ascii: "id_char c \<Longrightarrow> (of_char c :: nat) < 128"
  by (auto simp: id_char_def Let_def)

lemma is_ascii_append [simp]: "is_ascii (xs @ ys) \<longleftrightarrow> is_ascii xs \<and> is_ascii ys"
  by (simp add: is_ascii_def)

lemma py_print_ascii: "is_ascii s \<Longrightarrow> py_print sv s = Inr ()"
  by (simp add: py_print_def)

lemma py_print_raises: "py_print sv s = Inl e \<Longrightarrow> stdout sv s = Some e"
  by (simp add: py_print_def split: if_splits option.splits)

lemma get_video_id_from_url_ascii:
  assumes "get_video_id_from_url url = Some vid"
  shows "is_ascii vid"
  using get_video_id_from_url_SomeD(2) [OF assms] id_char_ascii
  by (auto simp: is_ascii_def list_all_iff)

lemma process_video_banners:
  assumes "get_video_id_from_url url = Some vid"
  shows "py_print sv (''--- Processing new Video ID: '' @ vid @ '' ---'') = Inr ()"
    and "py_print sv (''--- Video '' @ vid @ '' processed and cached ---'') = Inr ()"
  using get_video_id_from_url_ascii [OF assms]
  by (simp_all add: py_print_ascii is_ascii_def)

lemma get_transcript_from_youtube_eq:
  "get_transcript_from_youtube sv vid w =
     ((case fetch sv (calls w) vid of
         Inr segs \<Rightarrow> Inr (Some (join '' '' segs))
       | Inl e \<Rightarrow>
          (case py_print sv (''Error fetching transcript: '' @ exc_str e) of
             Inl e' \<Rightarrow> Inl e'
           | Inr _ \<Rightarrow> Inr None)),
      record_call (FetchTranscript vid) w)"
  by (simp add: get_transcript_from_youtube_def except_print_return_None_def call_fetch_def
      split: sum.splits)

lemma get_transcript_from_youtube_raises:
  assumes "get_transcript_from_youtube sv vid w = (Inl e, w1)"
  shows "\<exists>s. stdout sv s = Some e"
  using assms py_print_raises [of sv _ e] unfolding get_transcript_from_youtube_eq
  by (auto split: sum.splits)

lemma except_print_return_None_raises:
  assumes "except_print_return_None sv label r = (Inl e, w1)"
  shows "\<exists>s. stdout sv s = Some e"
  using assms py_print_raises [of sv _ e]
  by (auto simp: except_print_return_None_def split: sum.splits prod.splits)

lemma create_vector_store_state:
  "\<exists>r w' rest. create_vector_store sv t w = (r, w') \<and> session_cache w' = session_cache w
      \<and> calls w' = calls w @ rest"
  by (simp add: create_vector_store_def except_print_return_None_def record_call_def
      call_split_text_def call_from_texts_def split: sum.splits)

lemma create_vector_store_raises:
  "create_vector_store sv t w = (Inl e, w1) \<Longrightarrow> \<exists>s. stdout sv s = Some e"
  unfolding create_vector_store_def by (rule except_print_return_None_raises)

lemma create_qa_chain_raises:
  "create_qa_chain sv vs w = (Inl e, w1) \<Longrightarrow> \<exists>s. stdout sv s = Some e"
  unfolding create_qa_chain_def by (rule except_print_return_None_raises)

lemma create_qa_chain_state:
  "\<exists>r w' rest. create_qa_chain sv vs w = (r, w') \<and> session_cache w' = session_cache w
      \<and> calls w' = calls w @ rest"
  by (simp add: create_qa_chain_def except_print_return_None_def record_call_def
      call_from_llm_def split: sum.splits)

lemma process_video_invalid:
  "get_video_id_from_url (video_url rq) = None \<Longrightarrow>
   process_video sv rq w = (Inl (HTTPException 400 ''Invalid YouTube URL''), w)"
  by (simp add: process_video_def falsy_str_def)

lemma process_video_cached:
  "get_video_id_from_url (video_url rq) = Some vid \<Longrightarrow> session_cache w vid = Some s \<Longrightarrow>
   process_video sv rq w = (Inr (ProcessResponse vid ''Video already processed''), w)"
  using falsy_get_video_id [of "video_url rq"] by (simp add: process_video_def)

lemma failures_mem:
  "Inl (HTTPException 404 ''Could not fetch transcript'') \<in> failures sv"
  "Inl (HTTPException 500 ''Could not create vector store'') \<in> failures sv"
  "Inl (HTTPException 500 ''Could not create Q&A chain'') \<in> failures sv"
  "\<exists>s. stdout sv s = Some e \<Longrightarrow> Inl (Uncaught e) \<in> failures sv"
  by (auto simp: pipeline_errors_def failures_def)

lemma fresh_failed:
  assumes "calls w1 = calls w @ FetchTranscript vid # rest" "r = e" "e \<in> failures sv"
    "session_cache w1 = session_cache wa" "session_cache wa = session_cache w"
  shows "(\<exists>rest. calls w1 = calls w @ FetchTranscript vid # rest) \<and>
     ((r \<in> failures sv \<and> session_cache w1 = session_cache w) \<or>
      (\<exists>ch. r = Inr (ProcessResponse vid ''Video processed successfully'') \<and>
         session_cache w1 = (session_cache w)(vid \<mapsto> \<lparr>qa_chain = ch, chat_history = []\<rparr>)))"
  using assms by auto

lemma process_video_fresh:
  assumes "get_video_id_from_url (video_url rq) = Some vid" "session_cache w vid = None"
    and "process_video sv rq w = (r, w1)"
  shows "(\<exists>rest. calls w1 = calls w @ FetchTranscript vid # rest) \<and>
     ((r \<in> failures sv \<and> session_cache w1 = session_cache w) \<or>
      (\<exists>ch. r = Inr (ProcessResponse vid ''Video processed successfully'') \<and>
         session_cache w1 = (session_cache w)(vid \<mapsto> \<lparr>qa_chain = ch, chat_history = []\<rparr>)))"
proof -
  define wa where "wa = record_call (FetchTranscript vid) w"
  obtain tr where t: "get_transcript_from_youtube sv vid w = (tr, wa)"
    unfolding wa_def using get_transcript_from_youtube_eq by blast
  have c1: "calls wa = calls w @ FetchTranscript vid # []" and s1: "session_cache wa = session_cache w"
    by (simp_all add: record_call_def wa_def)
  have nf: "\<not> falsy_str (get_video_id_from_url (video_url rq))"
    using assms(1) falsy_get_video_id [of "video_url rq"] by simp
  have pv: "process_video sv rq w =
     (case (tr, wa) of
        (Inl e, w1) \<Rightarrow> (Inl (Uncaught e), w1)
      | (Inr transcript, w1) \<Rightarrow>
         if falsy_str transcript then (Inl (HTTPException 404 ''Could not fetch transcript''), w1)
         else (case create_vector_store sv (the transcript) w1 of
              (Inl e, w2) \<Rightarrow> (Inl (Uncaught e), w2)
            | (Inr None, w2) \<Rightarrow> (Inl (HTTPException 500 ''Could not create vector store''), w2)
            | (Inr (Some vector_store), w2) \<Rightarrow>
               (case create_qa_chain sv vector_store w2 of
                  (Inl e, w3) \<Rightarrow> (Inl (Uncaught e), w3)
                | (Inr None, w3) \<Rightarrow> (Inl (HTTPException 500 ''Could not create Q&A chain''), w3)
                | (Inr (Some chain), w3) \<Rightarrow>
                    (Inr (ProcessResponse vid ''Video processed successfully''),
                     w3\<lparr>session_cache := (session_cache w3)
                          (vid \<mapsto> \<lparr>qa_chain = chain, chat_history = []\<rparr>)\<rparr>))))"
    unfolding process_video_def Let_def assms(1) option.sel using nf assms(1,2) t by simp
  show ?thesis
  proof (cases tr)
    case (Inl e)
    with pv assms(3) have "r = Inl (Uncaught e)" "w1 = wa" by simp_all
    then show ?thesis
      using c1 s1 failures_mem(4) [OF get_transcript_from_youtube_raises [OF t [unfolded Inl]]]
      by (intro fresh_failed [where rest = "[]" and wa = wa]) simp_all
  next
    case (Inr transcript)
    show ?thesis
    proof (cases "falsy_str transcript")
      case True
      with pv assms(3) Inr
      have "r = Inl (HTTPException 404 ''Could not fetch transcript'')" "w1 = wa"
        by simp_all
      then show ?thesis using c1 s1 failures_mem(1)
        by (intro fresh_failed [where rest = "[]" and wa = wa]) simp_all
    next
      case False
      obtain vs w2 rest2 where v: "create_vector_store sv (the transcript) wa = (vs, w2)"
        and s2: "session_cache w2 = session_cache wa" and c2: "calls w2 = calls wa @ rest2"
        using create_vector_store_state [of sv "the transcript" wa] by auto
      have c2': "calls w2 = calls w @ FetchTranscript vid # rest2" using c1 c2 by simp
      have pv2: "(r, w1) =
            (case vs of
               Inl e \<Rightarrow> (Inl (Uncaught e), w2)
             | Inr None \<Rightarrow> (Inl (HTTPException 500 ''Could not create vector store''), w2)
             | Inr (Some vector_store) \<Rightarrow>
               (case create_qa_chain sv vector_store w2 of
                  (Inl e, w3) \<Rightarrow> (Inl (Uncaught e), w3)
                | (Inr None, w3) \<Rightarrow> (Inl (HTTPException 500 ''Could not create Q&A chain''), w3)
                | (Inr (Some chain), w3) \<Rightarrow>
                    (Inr (ProcessResponse vid ''Video processed successfully''),
                     w3\<lparr>session_cache := (session_cache w3)
                          (vid \<mapsto> \<lparr>qa_chain = chain, chat_history = []\<rparr>)\<rparr>)))"
        using pv assms(3) Inr False v by (simp split: sum.splits option.splits)
      show ?thesis
      proof (cases vs)
        case (Inl e)
        with pv2 have "r = Inl (Uncaught e)" "w1 = w2" by simp_all
        then show ?thesis
          using c2' s1 s2 failures_mem(4) [OF create_vector_store_raises [OF v [unfolded Inl]]]
          by (intro fresh_failed [where rest = rest2 and wa = wa]) simp_all
      next
        case vsr: (Inr vso)
        show ?thesis
        proof (cases vso)
          case None
          with pv2 vsr
          have "r = Inl (HTTPException 500 ''Could not create vector store'')" "w1 = w2"
            by simp_all
          then show ?thesis using c2' s1 s2 failures_mem(2)
            by (intro fresh_failed [where rest = rest2 and wa = wa]) simp_all
        next
          case (Some store)
          obtain ch w3 rest3 where q: "create_qa_chain sv store w2 = (ch, w3)"
            and s3: "session_cache w3 = session_cache w2" and c3: "calls w3 = calls w2 @ rest3"
            using create_qa_chain_state [of sv store w2] by auto
          have c3': "calls w3 = calls w @ FetchTranscript vid # (rest2 @ rest3)"
            using c2' c3 by simp
          have pv3: "(r, w1) =
            (case ch of
                  Inl e \<Rightarrow> (Inl (Uncaught e), w3)
                | Inr None \<Rightarrow> (Inl (HTTPException 500 ''Could not create Q&A chain''), w3)
                | Inr (Some chain) \<Rightarrow>
                    (Inr (ProcessResponse vid ''Video processed successfully''),
                     w3\<lparr>session_cache := (session_cache w3)
                          (vid \<mapsto> \<lparr>qa_chain = chain, chat_history = []\<rparr>)\<rparr>))"
            using pv2 vsr Some q by (simp split: sum.splits option.splits)
          show ?thesis
          proof (cases ch)
            case (Inl e)
            with pv3 have "r = Inl (Uncaught e)" "w1 = w3" by simp_all
            then show ?thesis
              using c3' s1 s2 s3 failures_mem(4) [OF create_qa_chain_raises [OF q [unfolded Inl]]]
              by (intro fresh_failed [where rest = "rest2 @ rest3" and wa = wa]) simp_all
          next
            case chr: (Inr cho)
            show ?thesis
            proof (cases cho)
              case None
              with pv3 chr
              have "r = Inl (HTTPException 500 ''Could not create Q&A chain'')" "w1 = w3"
                by simp_all
              then show ?thesis using c3' s1 s2 s3 failures_mem(3)
                by (intro fresh_failed [where rest = "rest2 @ rest3" and wa = wa]) simp_all
            next
              case chain: (Some chain)
              with pv3 chr
              have r: "r = Inr (ProcessResponse vid ''Video processed successfully'')"
                and w: "w1 = w3\<lparr>session_cache := (session_cache w3)
                          (vid \<mapsto> \<lparr>qa_chain = chain, chat_history = []\<rparr>)\<rparr>"
                by simp_all
              have "calls w1 = calls w @ FetchTranscript vid # (rest2 @ rest3)"
                using w c3' by simp
              moreover have "session_cache w1
                  = (session_cache w)(vid \<mapsto> \<lparr>qa_chain = chain, chat_history = []\<rparr>)"
                using w s1 s2 s3 by simp
              ultimately show ?thesis using r by (intro conjI disjI2 exI) assumption+
            qed
          qed
        qed
      qed
    qed
  qed
qed

lemma process_video_success:
  assumes "process_video sv rq w = (Inr resp, w1)"
  shows "get_video_id_from_url (video_url rq) = Some (video_id resp)"
    and "session_cache w1 (video_id resp) \<noteq> None"
proof -
  obtain vid where g: "get_video_id_from_url (video_url rq) = Some vid"
    using assms process_video_invalid [of rq sv w]
    by (cases "get_video_id_from_url (video_url rq)") auto
  have "video_id resp = vid \<and> session_cache w1 vid \<noteq> None"
  proof (cases "session_cache w vid")
    case (Some s)
    then show ?thesis using assms process_video_cached [OF g Some, of sv] by auto
  next
    case None
    from process_video_fresh [OF g None assms] show ?thesis by (auto simp: failures_def)
  qed
  with g show "get_video_id_from_url (video_url rq) = Some (video_id resp)"
    and "session_cache w1 (video_id resp) \<noteq> None" by simp_all
qed

lemma process_video_failure:
  assumes "process_video sv rq w = (Inl err, w1)"
  shows "session_cache w1 = session_cache w"
    and "err \<in> insert (HTTPException 400 ''Invalid YouTube URL'') pipeline_errors
           \<or> (\<exists>e s. err = Uncaught e \<and> stdout sv s = Some e)"
    and "err = HTTPException 400 ''Invalid YouTube URL'' \<longleftrightarrow> get_video_id_from_url (video_url rq) = None"
    and "get_video_id_from_url (video_url rq) = Some vid \<Longrightarrow> session_cache w1 vid = None"
proof -
  have "session_cache w1 = session_cache w
      \<and> (err \<in> insert (HTTPException 400 ''Invalid YouTube URL'') pipeline_errors
           \<or> (\<exists>e s. err = Uncaught e \<and> stdout sv s = Some e))
      \<and> (err = HTTPException 400 ''Invalid YouTube URL'' \<longleftrightarrow> get_video_id_from_url (video_url rq) = None)
      \<and> (\<forall>vid. get_video_id_from_url (video_url rq) = Some vid \<longrightarrow> session_cache w1 vid = None)"
  proof (cases "get_video_id_from_url (video_url rq)")
    case None
    then show ?thesis using assms process_video_invalid [OF None, of sv w] by simp
  next
    case (Some v)
    show ?thesis
    proof (cases "session_cache w v")
      case s: (Some s)
      then show ?thesis using assms process_video_cached [OF Some s, of sv] by simp
    next
      case None
      from process_video_fresh [OF Some None assms]
      have e: "err \<in> pipeline_errors \<or> (\<exists>e s. err = Uncaught e \<and> stdout sv s = Some e)"
        and c: "session_cache w1 = session_cache w" by (auto simp: failures_def)
      have "err \<noteq> HTTPException 400 ''Invalid YouTube URL''"
        using e by (auto simp: pipeline_errors_def)
      with e c Some None show ?thesis by auto
    qed
  qed
  note all = this
  note a = all [THEN conjunct1]
    and b = all [THEN conjunct2, THEN conjunct1]
    and c = all [THEN conjunct2, THEN conjunct2, THEN conjunct1]
    and d = all [THEN conjunct2, THEN conjunct2, THEN conjunct2]
  show "session_cache w1 = session_cache w" by (rule a)
  show "err \<in> insert (HTTPException 400 ''Invalid YouTube URL'') pipeline_errors
           \<or> (\<exists>e s. err = Uncaught e \<and> stdout sv s = Some e)" by (rule b)
  show "err = HTTPException 400 ''Invalid YouTube URL'' \<longleftrightarrow> get_video_id_from_url (video_url rq) = None"
    by (rule c)
  show "session_cache w1 vid = None" if "get_video_id_from_url (video_url rq) = Some vid"
    using d that by (elim allE impE) assumption+
qed

text \<open>
  Claim C2. When the parsed id is already in the session cache, \<^verbatim>\<open>process_video\<close> answers
  "Video already processed" for that id and returns the state as it was: no external
  call is recorded, and the cached session, with its chat history, is untouched. Hence
  after any successful call a second call with the same URL takes this short cut.
\<close>

theorem process_video_idempotent:
  "(get_video_id_from_url (video_url rq) = Some vid \<and> session_cache w vid = Some s \<longrightarrow>
      process_video sv rq w = (Inr (ProcessResponse vid ''Video already processed''), w)) \<and>
   (process_video sv rq w = (Inr resp, w1) \<longrightarrow>
      process_video sv' rq w1
        = (Inr (ProcessResponse (video_id resp) ''Video already processed''), w1))"
proof (intro conjI impI)
  assume "get_video_id_from_url (video_url rq) = Some vid \<and> session_cache w vid = Some s"
  then show "process_video sv rq w = (Inr (ProcessResponse vid ''Video already processed''), w)"
    using process_video_cached by blast
next
  assume a: "process_video sv rq w = (Inr resp, w1)"
  from process_video_success [OF a] obtain s1
    where "get_video_id_from_url (video_url rq) = Some (video_id resp)"
      and "session_cache w1 (video_id resp) = Some s1" by auto
  then show "process_video sv' rq w1
      = (Inr (ProcessResponse (video_id resp) ''Video already processed''), w1)"
    by (rule process_video_cached)
qed

text \<open>
  Claim C3. Whenever \<^verbatim>\<open>process_video\<close> fails, the session cache is the one from before the
  call. The failure is one of the four HTTP errors, the 400 exactly when the URL does not
  parse, or it is an exception that the standard output raised while a helper printed
  its error message. When the URL parses, the cache has no entry for its id afterwards,
  and the next call for the same URL starts the pipeline again with the transcript
  fetch.
\<close>

theorem process_video_atomic_on_failure:
  assumes "process_video sv rq w = (Inl err, w1)"
  shows "session_cache w1 = session_cache w \<and>
     (err \<in> {HTTPException 400 ''Invalid YouTube URL'',
            HTTPException 404 ''Could not fetch transcript'',
            HTTPException 500 ''Could not create vector store'',
            HTTPException 500 ''Could not create Q&A chain''}
       \<or> (\<exists>e s. err = Uncaught e \<and> stdout sv s = Some e)) \<and>
     (err = HTTPException 400 ''Invalid YouTube URL''
        \<longleftrightarrow> get_video_id_from_url (video_url rq) = None) \<and>
     (\<forall>vid. get_video_id_from_url (video_url rq) = Some vid \<longrightarrow>
        session_cache w1 vid = None \<and>
        (\<exists>rest. calls (snd (process_video sv' rq w1)) = calls w1 @ FetchTranscript vid # rest))"
proof -
  note f = process_video_failure [OF assms]
  have "\<exists>rest. calls (snd (process_video sv' rq w1)) = calls w1 @ FetchTranscript vid # rest"
    if g: "get_video_id_from_url (video_url rq) = Some vid" for vid
  proof -
    have n: "session_cache w1 vid = None" using f(4) g by simp
    obtain r w2 where p: "process_video sv' rq w1 = (r, w2)" by (cases "process_video sv' rq w1")
    from process_video_fresh [OF g n p] show ?thesis using p by simp
  qed
  moreover have "err \<in> {HTTPException 400 ''Invalid YouTube URL'',
            HTTPException 404 ''Could not fetch transcript'',
            HTTPException 500 ''Could not create vector store'',
            HTTPException 500 ''Could not create Q&A chain''}
       \<or> (\<exists>e s. err = Uncaught e \<and> stdout sv s = Some e)"
    using f(2) unfolding pipeline_errors_def by simp
  ultimately show ?thesis using f(1,3,4) by simp
qed

lemma join_spec: "join sep xs = concat (butlast (concat (map (\<lambda>x. [x, sep]) xs)))"
  by (induction sep xs rule: join.induct) simp_all

lemma join_Nil_iff: "join [c] xs = [] \<longleftrightarrow> xs = [] \<or> xs = [[]]"
  by (induction "[c]" xs rule: join.induct) simp_all

lemmas eval_defs = get_video_id_from_url_def patterns_def match_here_def id_char_def
  falsy_str_def process_video_def ask_question_def get_transcript_from_youtube_def
  create_vector_store_def create_qa_chain_def except_print_return_None_def
  except_raise_500_def AskResponse_init_def py_print_def is_ascii_def record_call_def
  call_fetch_def call_split_text_def call_from_texts_def call_from_llm_def call_invoke_def
  demo_services_def silent_services_def ascii_services_def initial_world_def
  text_splitter_def key_error_def Let_def

text \<open>
  Claim C2, on the video \<^verbatim>\<open>abc\<close>: processed once from the empty cache, then again.
\<close>

theorem process_video_idempotent_witness:
  "fst (process_video demo_services (ProcessRequest ''https://youtu.be/abc'') initial_world)
     = Inr (ProcessResponse ''abc'' ''Video processed successfully'') \<and>
   process_video demo_services (ProcessRequest ''https://youtu.be/abc'')
       (snd (process_video demo_services (ProcessRequest ''https://youtu.be/abc'') initial_world))
     = (Inr (ProcessResponse ''abc'' ''Video already processed''),
        snd (process_video demo_services (ProcessRequest ''https://youtu.be/abc'') initial_world))"
proof -
  let ?rq = "ProcessRequest ''https://youtu.be/abc''"
  let ?w1 = "snd (process_video demo_services ?rq initial_world)"
  let ?s = "\<lparr>qa_chain = 2 :: nat, chat_history = []\<rparr>"
  have f: "fst (process_video demo_services ?rq initial_world)
      = Inr (ProcessResponse ''abc'' ''Video processed successfully'')"
    by (simp add: eval_defs)
  have g: "get_video_id_from_url (video_url ?rq) = Some ''abc''"
    by (simp add: eval_defs)
  have c: "session_cache ?w1 ''abc'' = Some ?s"
    by (simp add: eval_defs)
  have p: "process_video demo_services ?rq initial_world
      = (Inr (ProcessResponse ''abc'' ''Video processed successfully''), ?w1)"
    using f by (simp add: prod_eq_iff)
  note t = process_video_idempotent [where rq = ?rq and vid = "''abc''" and w = ?w1 and s = ?s
      and sv = demo_services and sv' = demo_services
      and resp = "ProcessResponse ''abc'' ''Video already processed''" and ?w1.0 = ?w1]
  note a = t [THEN conjunct1, rule_format, OF conjI [OF g c]]
  from f a show ?thesis by (intro conjI)
qed

text \<open>
  Claim C3, on the video \<^verbatim>\<open>xyz\<close>, whose transcript cannot be fetched.
\<close>

theorem process_video_atomic_on_failure_witness:
  "fst (process_video demo_services (ProcessRequest ''https://youtu.be/xyz'') initial_world)
     = Inl (HTTPException 404 ''Could not fetch transcript'') \<and>
   session_cache (snd (process_video demo_services (ProcessRequest ''https://youtu.be/xyz'')
       initial_world)) = session_cache (initial_world :: (nat, nat) world) \<and>
   session_cache (snd (process_video demo_services (ProcessRequest ''https://youtu.be/xyz'')
       initial_world)) ''xyz'' = None"
proof -
  let ?rq = "ProcessRequest ''https://youtu.be/xyz''"
  let ?w1 = "snd (process_video demo_services ?rq initial_world)"
  have f: "fst (process_video demo_services ?rq initial_world)
      = Inl (HTTPException 404 ''Could not fetch transcript'')"
    by (simp add: eval_defs)
  have g: "get_video_id_from_url (video_url ?rq) = Some ''xyz''"
    by (simp add: eval_defs)
  have p: "process_video demo_services ?rq initial_world
      = (Inl (HTTPException 404 ''Could not fetch transcript''), ?w1)"
    using f by (simp add: prod_eq_iff)
  note t = process_video_atomic_on_failure [OF p, where sv' = demo_services]
  note a = t [THEN conjunct1]
  note b = t [THEN conjunct2, THEN conjunct2, THEN conjunct2, rule_format, OF g, THEN conjunct1]
  from f a b show ?thesis by (intro conjI)
qed

text \<open>
  Claim C6 says that \<^verbatim>\<open>get_transcript_from_youtube\<close> never raises and returns \<^verbatim>\<open>None\<close> on every
  failure of the transcript service. The handler prints the error before it returns
  \<^verbatim>\<open>None\<close>. Here the service fails with a message that has an accented letter and the
  standard output takes ASCII only: the print raises, the exception leaves the function
  instead of \<^verbatim>\<open>None\<close> being returned, and it passes through \<^verbatim>\<open>process_video\<close>.
\<close>

theorem get_transcript_from_youtube_raises_on_print:
  "fetch ascii_services (calls (initial_world :: (nat, nat) world)) ''xyz''
     = Inl (PyException ''ConnectionError'' (''Connexion refus'' @ [CHR 0xC3, CHR 0xA9] @ ''e'')) \<and>
   fst (get_transcript_from_youtube ascii_services ''xyz'' initial_world)
     = Inl (PyException ''UnicodeEncodeError'' ''ordinal not in range(128)'') \<and>
   fst (process_video ascii_services (ProcessRequest ''https://youtu.be/xyz'') initial_world)
     = Inl (Uncaught (PyException ''UnicodeEncodeError'' ''ordinal not in range(128)''))"
  by (simp add: eval_defs)

text \<open>
  Claim C8. When the fetch succeeds and the joined transcript is the empty string,
  \<^verbatim>\<open>process_video\<close> raises the 404 "Could not fetch transcript" of a failed fetch and
  creates no cache entry: only the fetch is recorded. The joined transcript is empty
  only when there is no segment or a single, empty segment.
\<close>

theorem process_video_empty_transcript:
  assumes "get_video_id_from_url (video_url rq) = Some vid" and "session_cache w vid = None"
    and "fetch sv (calls w) vid = Inr segs" and "join '' '' segs = []"
  shows "process_video sv rq w
       = (Inl (HTTPException 404 ''Could not fetch transcript''),
          w\<lparr>calls := calls w @ [FetchTranscript vid]\<rparr>) \<and>
     session_cache (snd (process_video sv rq w)) vid = None \<and>
     (segs = [] \<or> segs = [[]])"
proof -
  have t: "get_transcript_from_youtube sv vid w
      = (Inr (Some []), w\<lparr>calls := calls w @ [FetchTranscript vid]\<rparr>)"
    using assms(3,4) by (simp add: get_transcript_from_youtube_eq record_call_def)
  have nf: "\<not> falsy_str (get_video_id_from_url (video_url rq))"
    using assms(1) falsy_get_video_id [of "video_url rq"] by simp
  have p: "process_video sv rq w
       = (Inl (HTTPException 404 ''Could not fetch transcript''),
          w\<lparr>calls := calls w @ [FetchTranscript vid]\<rparr>)"
    unfolding process_video_def Let_def assms(1) option.sel
    using nf assms(1,2) t by (simp add: falsy_str_def)
  have "segs = [] \<or> segs = [[]]" using assms(4) join_Nil_iff [of "CHR '' ''" segs] by simp
  with p assms(2) show ?thesis by simp
qed

text \<open>
  Claim C8, on a transcript of one empty segment.
\<close>

theorem process_video_empty_transcript_witness:
  "process_video silent_services (ProcessRequest ''https://youtu.be/xyz'') initial_world
     = (Inl (HTTPException 404 ''Could not fetch transcript''),
        initial_world\<lparr>calls := calls initial_world @ [FetchTranscript ''xyz'']\<rparr>) \<and>
   session_cache (snd (process_video silent_services (ProcessRequest ''https://youtu.be/xyz'')
      initial_world)) ''xyz'' = None"
proof -
  let ?rq = "ProcessRequest ''https://youtu.be/xyz''"
  have g: "get_video_id_from_url (video_url ?rq) = Some ''xyz''"
    by (simp add: eval_defs)
  have c: "session_cache (initial_world :: (nat, nat) world) ''xyz'' = None"
    by (simp add: initial_world_def)
  have f: "fetch silent_services (calls (initial_world :: (nat, nat) world)) ''xyz'' = Inr [[]]"
    by (simp add: silent_services_def)
  have j: "join '' '' [[]] = []" by simp
  note t = process_video_empty_transcript [OF g c f j]
  from t [THEN conjunct1] t [THEN conjunct2, THEN conjunct1] show ?thesis by (intro conjI)
qed

section \<open>Properties of asking a question\<close>

lemma ask_question_missing:
  "session_cache w (ask_video_id rq) = None \<Longrightarrow>
   ask_question sv rq w
     = (Inl (HTTPException 404 ''Video not processed. Call /process-video first.''), w)"
  by (simp add: ask_question_def)

lemma ask_question_cached_eq:
  assumes "session_cache w (ask_video_id rq) = Some s"
  shows "ask_question sv rq w =
     (case py_print sv (''--- New question for '' @ ask_video_id rq @ '' ---'') of
        Inl e \<Rightarrow> (Inl (Uncaught e), w)
      | Inr _ \<Rightarrow>
         except_raise_500 sv
           (case invoke sv (calls w) (qa_chain s) (question rq) (chat_history s) of
              Inl e \<Rightarrow> (Inl e, invoked s (question rq) w)
            | Inr result \<Rightarrow>
               (case map_of result ''answer'' of
                  None \<Rightarrow> (Inl (key_error ''answer''), invoked s (question rq) w)
                | Some ans \<Rightarrow>
                   (case py_print sv (''Answer: '' @ py_str ans) of
                      Inl e \<Rightarrow> (Inl e, appended (ask_video_id rq) s (question rq) ans w)
                    | Inr _ \<Rightarrow>
                       (case AskResponse_init sv ans of
                          Inl e \<Rightarrow> (Inl e, appended (ask_video_id rq) s (question rq) ans w)
                        | Inr resp \<Rightarrow>
                            (Inr resp, appended (ask_video_id rq) s (question rq) ans w))))))"
  using assms
  by (simp add: ask_question_def call_invoke_def record_call_def invoked_def appended_def Let_def
      split: sum.splits option.splits)


lemma except_raise_500_snd: "snd (except_raise_500 sv x) = snd x"
  by (auto simp: except_raise_500_def split: sum.splits prod.splits)




lemma ask_question_cached_state:
  assumes "session_cache w (ask_video_id rq) = Some s"
  shows "snd (ask_question sv rq w) = w \<or>
     snd (ask_question sv rq w) = invoked s (question rq) w \<or>
     (\<exists>ans. snd (ask_question sv rq w) = appended (ask_video_id rq) s (question rq) ans w)"
  unfolding ask_question_cached_eq [OF assms]
  by (auto simp: except_raise_500_snd split: sum.splits option.splits)


lemma process_video_cache_cases:
  assumes "process_video sv rq w = (r, w1)"
  shows "session_cache w1 = session_cache w \<or>
     (\<exists>vid ch. r = Inr (ProcessResponse vid ''Video processed successfully'') \<and>
        session_cache w vid = None \<and>
        session_cache w1 = (session_cache w)(vid \<mapsto> \<lparr>qa_chain = ch, chat_history = []\<rparr>))"
proof (cases "get_video_id_from_url (video_url rq)")
  case None
  then show ?thesis using assms process_video_invalid [OF None, of sv w] by simp
next
  case (Some v)
  show ?thesis
  proof (cases "session_cache w v")
    case s: (Some s)
    then show ?thesis using assms process_video_cached [OF Some s, of sv] by simp
  next
    case None
    from process_video_fresh [OF Some None assms] None show ?thesis by auto
  qed
qed


lemma ask_question_cache_cases:
  assumes "ask_question sv rq w = (r, w1)"
  shows "session_cache w1 = session_cache w \<or>
     (\<exists>s ans. session_cache w (ask_video_id rq) = Some s \<and>
        session_cache w1 = (session_cache w)
          (ask_video_id rq \<mapsto> s\<lparr>chat_history := chat_history s @ [(question rq, ans)]\<rparr>))"
proof (cases "session_cache w (ask_video_id rq)")
  case None
  then show ?thesis using assms ask_question_missing [OF None, of sv] by simp
next
  case (Some s)
  from ask_question_cached_state [OF Some, of sv] assms Some show ?thesis
    by (auto simp: invoked_def appended_def)
qed

lemma handle_cache_new:
  assumes "handle sv rq w = (r, w1)" and "session_cache w1 vid \<noteq> None"
  shows "session_cache w vid \<noteq> None \<or> successfully_processed vid [r]"
proof (cases rq)
  case (Process prq)
  obtain pr where p: "process_video sv prq w = (pr, w1)" and r: "r = Processed pr"
    using assms(1) Process by (auto split: prod.splits)
  from process_video_cache_cases [OF p] show ?thesis
  proof
    assume "session_cache w1 = session_cache w"
    with assms(2) show ?thesis by simp
  next
    assume "\<exists>v ch. pr = Inr (ProcessResponse v ''Video processed successfully'') \<and>
        session_cache w v = None \<and>
        session_cache w1 = (session_cache w)(v \<mapsto> \<lparr>qa_chain = ch, chat_history = []\<rparr>)"
    then obtain v ch where pr: "pr = Inr (ProcessResponse v ''Video processed successfully'')"
      and u: "session_cache w1 = (session_cache w)(v \<mapsto> \<lparr>qa_chain = ch, chat_history = []\<rparr>)"
      by (elim exE conjE)
    show ?thesis
    proof (cases "v = vid")
      case True
      then show ?thesis using r pr by (simp add: successfully_processed_def)
    next
      case False
      then show ?thesis using assms(2) u by simp
    qed
  qed
next
  case (Ask arq)
  obtain ar where a: "ask_question sv arq w = (ar, w1)"
    using assms(1) Ask by (auto split: prod.splits)
  from ask_question_cache_cases [OF a] assms(2) show ?thesis
    by (auto split: if_splits)
next
  case Root
  then show ?thesis using assms by simp
qed

lemma successfully_processed_Cons:
  "successfully_processed vid (r # rs)
     \<longleftrightarrow> successfully_processed vid [r] \<or> successfully_processed vid rs"
  by (simp add: successfully_processed_def)

lemma serve_cache_new:
  "serve sv reqs w = (resps, w1) \<Longrightarrow> session_cache w1 vid \<noteq> None \<Longrightarrow>
   session_cache w vid \<noteq> None \<or> successfully_processed vid resps"
proof (induction reqs arbitrary: w resps)
  case Nil
  then show ?case by simp
next
  case (Cons rq reqs)
  obtain r wm where h: "handle sv rq w = (r, wm)" by (cases "handle sv rq w")
  obtain rs where s: "serve sv reqs wm = (rs, w1)" and e: "resps = r # rs"
    using Cons.prems(1) h by (auto split: prod.splits)
  from Cons.IH [OF s Cons.prems(2)]
  have "session_cache wm vid \<noteq> None \<or> successfully_processed vid rs" .
  then show ?case
  proof
    assume "session_cache wm vid \<noteq> None"
    from handle_cache_new [OF h this] show ?thesis
      unfolding e successfully_processed_Cons [of vid r rs] by blast
  next
    assume "successfully_processed vid rs"
    then show ?thesis unfolding e successfully_processed_Cons [of vid r rs] by blast
  qed
qed

text \<open>
  Claim C5. For a video id absent from the session cache, \<^verbatim>\<open>ask_question\<close> raises the 404 and
  returns the state as it was: the chain is not invoked, nothing changes. In particular,
  after any sequence of requests served from the start of the process in which no
  \<^verbatim>\<open>process_video\<close> succeeded for that id, asking about it raises the 404.
\<close>

theorem ask_question_not_processed:
  "(session_cache w (ask_video_id rq) = None \<longrightarrow>
      ask_question sv rq w
        = (Inl (HTTPException 404 ''Video not processed. Call /process-video first.''), w)) \<and>
   (serve sv reqs initial_world = (resps, w') \<and>
      \<not> successfully_processed (ask_video_id rq) resps \<longrightarrow>
      ask_question sv' rq w'
        = (Inl (HTTPException 404 ''Video not processed. Call /process-video first.''), w'))"
proof (intro conjI impI)
  assume "session_cache w (ask_video_id rq) = None"
  then show "ask_question sv rq w
        = (Inl (HTTPException 404 ''Video not processed. Call /process-video first.''), w)"
    by (rule ask_question_missing)
next
  assume a: "serve sv reqs initial_world = (resps, w') \<and>
      \<not> successfully_processed (ask_video_id rq) resps"
  have "session_cache w' (ask_video_id rq) = None"
  proof (rule ccontr)
    assume "session_cache w' (ask_video_id rq) \<noteq> None"
    with a serve_cache_new [of sv reqs initial_world resps w' "ask_video_id rq"]
    show False by (simp add: initial_world_def)
  qed
  then show "ask_question sv' rq w'
        = (Inl (HTTPException 404 ''Video not processed. Call /process-video first.''), w')"
    by (rule ask_question_missing)
qed

text \<open>
  Claim C5, on the video \<^verbatim>\<open>xyz\<close>: before any request, and after its processing failed.
\<close>

theorem ask_question_not_processed_witness:
  "ask_question demo_services (AskRequest ''xyz'' ''hi'') initial_world
     = (Inl (HTTPException 404 ''Video not processed. Call /process-video first.''), initial_world) \<and>
   fst (serve demo_services [Process (ProcessRequest ''https://youtu.be/xyz'')] initial_world)
     = [Processed (Inl (HTTPException 404 ''Could not fetch transcript''))] \<and>
   ask_question demo_services (AskRequest ''xyz'' ''hi'')
       (snd (serve demo_services [Process (ProcessRequest ''https://youtu.be/xyz'')] initial_world))
     = (Inl (HTTPException 404 ''Video not processed. Call /process-video first.''),
        snd (serve demo_services [Process (ProcessRequest ''https://youtu.be/xyz'')] initial_world))"
proof -
  let ?rq = "AskRequest ''xyz'' ''hi''"
  let ?reqs = "[Process (ProcessRequest ''https://youtu.be/xyz'')]"
  let ?resps = "[Processed (Inl (HTTPException 404 ''Could not fetch transcript''))]"
  let ?w = "snd (serve demo_services ?reqs initial_world)"
  have c: "session_cache (initial_world :: (nat, nat) world) (ask_video_id ?rq) = None"
    by (simp add: initial_world_def)
  have f: "fst (serve demo_services ?reqs initial_world) = ?resps"
    by (simp add: eval_defs)
  have s: "serve demo_services ?reqs initial_world = (?resps, ?w)"
    using f by (simp add: prod_eq_iff)
  have n: "\<not> successfully_processed (ask_video_id ?rq) ?resps"
    by (simp add: successfully_processed_def)
  note t = ask_question_not_processed [where w = initial_world and rq = ?rq and sv = demo_services
        and reqs = ?reqs and resps = ?resps and w' = ?w and sv' = demo_services]
  note a = t [THEN conjunct1, rule_format, OF c]
  note b = t [THEN conjunct2, rule_format, OF conjI [OF s n]]
  from a f b show ?thesis by (intro conjI)
qed



text \<open>
  The append comes before the print of the answer and the construction of the response,
  inside the same \<^verbatim>\<open>try\<close>. When one of these two raises, the endpoint fails with 500 and
  the pair is in the history all the same. The invocation did not raise there, so this
  is another path than the one of claim C9. Below, the answer has an accented letter
  and the standard output takes ASCII only.
\<close>

lemma ask_question_fails_after_append:
  "fst (serve ascii_services
          [Process (ProcessRequest ''https://youtu.be/abc''), Ask (AskRequest ''abc'' ''q1'')]
          initial_world)
     = [Processed (Inr (ProcessResponse ''abc'' ''Video processed successfully'')),
        Asked (Inl (HTTPException 500 ''An error occurred: ordinal not in range(128)''))] \<and>
   map_option chat_history (session_cache (snd (serve ascii_services
          [Process (ProcessRequest ''https://youtu.be/abc''), Ask (AskRequest ''abc'' ''q1'')]
          initial_world)) ''abc'')
     = Some [(''q1'', Str (''caf'' @ [CHR 0xC3, CHR 0xA9]))]"
  by (simp add: eval_defs)








end
